theory Spec2Isabelle
  imports Main "HOL-Library.Word"
begin

section \<open>The Sloth task wrapper (sloth.py)\<close>

text \<open>
  The module wraps two functions of a C library, \<open>lib.sloth\<close> and
  \<open>lib.sloth_verification\<close>, in a class \<open>Sloth\<close> that runs them inline
  (\<open>blocking\<close>) or on a worker thread, shows their progress on a module-level progress
  bar and stores their results in the object. The C library is not part of the module:
  it is a parameter of the model (record \<open>env\<close>), together with the module constant
  \<open>PROGRESS\<close> and two facts of the platform: which allocations succeed, and the
  largest timeout a lock accepts. The interpreter is CPython 3.11: integers are
  unbounded, \<open>/\<close> on integers gives a correctly rounded double, and \<open>Thread.join\<close>
  is the one of its \<open>threading.py\<close>.
\<close>

subsection \<open>Values\<close>

type_synonym byte = "8 word"
type_synonym bytes = "byte list"

text \<open>The exceptions that leave the code of the module.\<close>

datatype exn =
    AssertionError
  | UnicodeEncodeError
  | OverflowError
  | MemoryError
  | FFIError
  | AttributeError
  | PrimitiveFailure

text \<open>
  The arguments \<open>bits\<close> and \<open>iterations\<close> are dynamically typed. \<open>isinstance(x, int)\<close>
  holds of integers and of booleans (\<open>bool\<close> is a subclass of \<open>int\<close>, with the
  values 0 and 1), and of nothing else.
\<close>

datatype pyobj = IntObj int | BoolObj bool | OtherObj

fun isinstance_int :: "pyobj \<Rightarrow> bool" where
  "isinstance_int (IntObj i) = True"
| "isinstance_int (BoolObj b) = True"
| "isinstance_int OtherObj = False"

fun int_value :: "pyobj \<Rightarrow> int" where
  "int_value (IntObj i) = i"
| "int_value (BoolObj b) = (if b then 1 else 0)"
| "int_value OtherObj = 0"

text \<open>
  The argument \<open>data\<close>: \<open>None\<close>, a \<open>bytes\<close> object, a \<open>str\<close> (its code points), or
  an object of another type, given by the code points of what \<open>str()\<close> makes of it.
\<close>

datatype pyval =
    PyNone
  | PyBytes bytes
  | PyStr "nat list"
  | PyObj "nat list"

text \<open>
  \<open>str.encode("utf8")\<close>: one to four bytes for a code point, and
  \<open>UnicodeEncodeError\<close> for a surrogate (a Python string has no code point from
  \<open>0x110000\<close> on).
\<close>

definition utf8_char :: "nat \<Rightarrow> exn + bytes" where
  "utf8_char c =
     (if c < 0x80 then Inr [of_nat c]
      else if c < 0x800 then Inr [of_nat (0xC0 + c div 64), of_nat (0x80 + c mod 64)]
      else if c < 0x10000 then
        (if 0xD800 \<le> c \<and> c \<le> 0xDFFF then Inl UnicodeEncodeError
         else Inr [of_nat (0xE0 + c div 4096), of_nat (0x80 + (c div 64) mod 64),
                   of_nat (0x80 + c mod 64)])
      else Inr [of_nat (0xF0 + c div 262144), of_nat (0x80 + (c div 4096) mod 64),
                of_nat (0x80 + (c div 64) mod 64), of_nat (0x80 + c mod 64)])"

fun encode_utf8 :: "nat list \<Rightarrow> exn + bytes" where
  "encode_utf8 [] = Inr []"
| "encode_utf8 (c # cs) =
     (case utf8_char c of
        Inl e \<Rightarrow> Inl e
      | Inr b \<Rightarrow> (case encode_utf8 cs of Inl e \<Rightarrow> Inl e | Inr bs \<Rightarrow> Inr (b @ bs)))"

text \<open>
  The setter of the property \<open>data\<close>: bytes are stored as they are, a string is
  encoded, anything else is turned into a string first (\<open>str(None)\<close> is \<open>"None"\<close>).
\<close>

fun data_setter :: "pyval \<Rightarrow> exn + bytes" where
  "data_setter (PyBytes b) = Inr b"
| "data_setter (PyStr s) = encode_utf8 s"
| "data_setter (PyObj s) = encode_utf8 s"
| "data_setter PyNone = encode_utf8 [78, 111, 110, 101]"

subsection \<open>The object, the module state and the environment\<close>

record Sloth =
  data :: "bytes option"
  bits :: int
  iterations :: int
  final_hash :: "bytes option"
  witness :: "bytes option"
  valid :: "bool option"
  blocking :: bool
  thread :: "nat option"

text \<open>
  A progress bar records the calls made on it: the total it was created with, the sum
  of the deltas given to \<open>update\<close>, and the number of calls of \<open>close\<close>.
\<close>

record tqdm =
  bar_total :: int
  bar_n :: int
  bar_closes :: nat

datatype operation = ComputeTask | VerifyTask

text \<open>
  A worker thread: the task it runs, and whether its code is still running. What the
  \<open>Thread\<close> object believes of it (\<open>_is_stopped\<close>) is kept apart, in \<open>stopped\<close> of
  the state.
\<close>

record worker =
  target :: operation
  alive :: bool

text \<open>
  The effects of the code in the order they happen. The lock \<open>_lock\<close> of the object is
  present through its \<open>Acquire\<close> and \<open>Release\<close> events.
\<close>

datatype event =
    NewBar int
  | CloseBar
  | CallSloth
  | CallVerification
  | Acquire
  | Release
  | SetWitness
  | SetFinalHash
  | SetValid
  | StartThread nat

text \<open>
  The state: one \<open>Sloth\<close> object, the module variable \<open>progressbar\<close> (a reference
  into the store of progress bars), the store of worker threads (\<open>thread\<close> of the
  object is a reference into it), the \<open>Thread\<close> objects that are marked as stopped,
  the exceptions that ended a worker (Python prints them on the error stream and
  drops them), and the trace of effects. The calls on the
  object come from one caller, one after the other; calls on other objects of the same
  process, which share \<open>progressbar\<close>, are not part of the state.
\<close>

record world =
  self :: Sloth
  progressbar :: "nat option"
  bars :: "tqdm list"
  threads :: "worker list"
  stopped :: "nat set"
  stderr :: "exn list"
  trace :: "event list"

text \<open>
  What \<open>lib.sloth\<close> leaves behind: the deltas it reported through the callback
  \<open>update_progress\<close>, the memory from the address of the witness buffer on (the
  buffer first, then what lies behind it), the size written to \<open>witness_size\<close>, and
  the memory from the address of the output buffer on.
\<close>

record sloth_result =
  deltas :: "int list"
  witness_mem :: "nat \<Rightarrow> byte"
  witness_size :: nat
  out_mem :: "nat \<Rightarrow> byte"

text \<open>
  The environment: the module constant \<open>PROGRESS\<close>, the two library functions, the
  sizes \<open>ffi.new\<close> can allocate, and \<open>threading.TIMEOUT_MAX\<close>.
  \<open>sloth\<close> takes the witness buffer, the output buffer, \<open>data\<close>, \<open>bits\<close> and
  \<open>iterations\<close>; \<open>sloth_verification\<close> takes the witness, its length,
  \<open>final_hash\<close>, \<open>data\<close>, \<open>bits\<close> and \<open>iterations\<close> and returns the reported deltas
  and its integer result. Either call may raise instead.
\<close>

record env =
  PROGRESS :: bool
  can_allocate :: "nat \<Rightarrow> bool"
  TIMEOUT_MAX :: int
  sloth :: "bytes \<Rightarrow> bytes \<Rightarrow> bytes option \<Rightarrow> int \<Rightarrow> int \<Rightarrow> exn + sloth_result"
  sloth_verification ::
    "bytes \<Rightarrow> nat \<Rightarrow> bytes option \<Rightarrow> bytes option \<Rightarrow> int \<Rightarrow> int \<Rightarrow> exn + (int list \<times> int)"

subsection \<open>Construction\<close>

text \<open>
  \<open>__init__\<close>: the three assertions come first, then the fields are assigned; the
  setter of \<open>data\<close> runs only when \<open>data\<close> is not \<open>None\<close>. A boolean that passes the
  assertions is stored as the integer it is.
\<close>

definition init ::
  "pyval \<Rightarrow> pyobj \<Rightarrow> pyobj \<Rightarrow> bytes option \<Rightarrow> bytes option \<Rightarrow> bool \<Rightarrow> exn + Sloth" where
  "init data0 bits0 iterations0 final_hash0 witness0 blocking0 =
     (if \<not> isinstance_int bits0 then Inl AssertionError
      else if int_value bits0 mod 512 \<noteq> 0 then Inl AssertionError
      else if \<not> isinstance_int iterations0 then Inl AssertionError
      else
        (case (if data0 = PyNone then Inr None
               else (case data_setter data0 of Inl e \<Rightarrow> Inl e | Inr b \<Rightarrow> Inr (Some b))) of
           Inl e \<Rightarrow> Inl e
         | Inr d \<Rightarrow>
             Inr \<lparr>data = d, bits = int_value bits0, iterations = int_value iterations0,
                  final_hash = final_hash0, witness = witness0, valid = None,
                  blocking = blocking0, thread = None\<rparr>))"

text \<open>The module after import (\<open>progressbar = None\<close>) with one object.\<close>

definition module_init :: "Sloth \<Rightarrow> world" where
  "module_init s =
     \<lparr>self = s, progressbar = None, bars = [], threads = [], stopped = {}, stderr = [],
      trace = []\<rparr>"

subsection \<open>Progress\<close>

definition emit :: "event \<Rightarrow> world \<Rightarrow> world" where
  "emit ev w = w\<lparr>trace := trace w @ [ev]\<rparr>"

text \<open>
  \<open>update_progress\<close>, the callback of the library: with \<open>PROGRESS\<close> it updates the
  bar \<open>progressbar\<close> refers to, if any; without, it does nothing.
\<close>

definition update_progress :: "env \<Rightarrow> int \<Rightarrow> world \<Rightarrow> world" where
  "update_progress E delta_iterations w =
     (if PROGRESS E then
        (case progressbar w of
           None \<Rightarrow> w
         | Some i \<Rightarrow>
             w\<lparr>bars := (bars w)[i := (bars w ! i)\<lparr>bar_n := bar_n (bars w ! i) + delta_iterations\<rparr>]\<rparr>)
      else w)"

fun callbacks :: "env \<Rightarrow> int list \<Rightarrow> world \<Rightarrow> world" where
  "callbacks E [] w = w"
| "callbacks E (d # ds) w = callbacks E ds (update_progress E d w)"

subsection \<open>The two tasks\<close>

text \<open>
  \<open>ffi.new("unsigned char[n]")\<close>: a zeroed buffer; a negative length is refused, and
  so is a length the allocator does not grant.
\<close>

definition ffi_new :: "env \<Rightarrow> int \<Rightarrow> exn + bytes" where
  "ffi_new E len =
     (if len < 0 then Inl FFIError
      else if \<not> can_allocate E (nat len) then Inl MemoryError
      else Inr (replicate (nat len) 0))"

text \<open>
  \<open>int(self.bits / 8)\<close>. The division is the true division of two integers: the
  double nearest to the quotient, ties to even, and \<open>OverflowError\<close> when that is
  beyond the range of a double. Dividing by 8 only moves the exponent, so the result is
  the integer rounded to 53 significant bits, divided by 8; \<open>int\<close> then cuts off the
  fraction.
\<close>

function bit_length :: "int \<Rightarrow> nat" where
  "bit_length n = (if n \<le> 0 then 0 else Suc (bit_length (n div 2)))"
  by pat_completeness auto
termination
  by (relation "measure nat") auto

definition round53 :: "int \<Rightarrow> int" where
  "round53 a =
     (if bit_length a \<le> 53 then a
      else
        (let sh = bit_length a - 53;
             q = a div 2 ^ sh;
             r = a mod 2 ^ sh;
             half = 2 ^ (sh - 1)
         in (if half < r \<or> (r = half \<and> odd q) then q + 1 else q) * 2 ^ sh))"

definition witness_len :: "int \<Rightarrow> exn + int" where
  "witness_len b =
     (let m = round53 \<bar>b\<bar>
      in if 2 ^ 1027 \<le> m then Inl OverflowError
         else Inr (if 0 \<le> b then m div 8 else - (m div 8)))"

text \<open>
  \<open>compute_task\<close>. \<open>bytes(ffi.buffer(witness, witness_size))\<close> reads \<open>witness_size\<close>
  bytes from the address of the witness buffer, whatever the length of the buffer;
  \<open>bytes(ffi.buffer(out))\<close> reads the 64 bytes of the output buffer.
\<close>

definition compute_task :: "env \<Rightarrow> world \<Rightarrow> exn option \<times> world" where
  "compute_task E w =
     (case ffi_new E 64 of
        Inl e \<Rightarrow> (Some e, w)
      | Inr out \<Rightarrow>
     (case witness_len (bits (self w)) of
        Inl e \<Rightarrow> (Some e, w)
      | Inr len \<Rightarrow>
     (case ffi_new E len of
        Inl e \<Rightarrow> (Some e, w)
      | Inr wit \<Rightarrow>
     (case sloth E wit out (data (self w)) (bits (self w)) (iterations (self w)) of
        Inl e \<Rightarrow> (Some e, emit CallSloth w)
      | Inr r \<Rightarrow>
          (let w1 = callbacks E (deltas r) (emit CallSloth w);
               w2 = emit Acquire w1;
               w3 = emit SetWitness
                      (w2\<lparr>self := (self w2)
                         \<lparr>witness := Some (map (witness_mem r) [0..<witness_size r])\<rparr>\<rparr>);
               w4 = emit SetFinalHash
                      (w3\<lparr>self := (self w3)\<lparr>final_hash := Some (map (out_mem r) [0..<64])\<rparr>\<rparr>);
               w5 = emit Release w4
           in (None, w5))))))"

definition verify_task :: "env \<Rightarrow> world \<Rightarrow> exn option \<times> world" where
  "verify_task E w =
     (case witness (self w) of
        None \<Rightarrow> (Some AssertionError, w)
      | Some wt \<Rightarrow>
     (case sloth_verification E wt (length wt) (final_hash (self w)) (data (self w))
             (bits (self w)) (iterations (self w)) of
        Inl e \<Rightarrow> (Some e, emit CallVerification w)
      | Inr (ds, verification) \<Rightarrow>
          (let w1 = callbacks E ds (emit CallVerification w);
               w2 = emit Acquire w1;
               w3 = emit SetValid (w2\<lparr>self := (self w2)\<lparr>valid := Some (verification = 1)\<rparr>\<rparr>);
               w4 = emit Release w3
           in (None, w4))))"

fun task :: "env \<Rightarrow> operation \<Rightarrow> world \<Rightarrow> exn option \<times> world" where
  "task E ComputeTask w = compute_task E w"
| "task E VerifyTask w = verify_task E w"

subsection \<open>Running a task\<close>

text \<open>\<open>progressbar.close()\<close> on the module variable.\<close>

definition close_progressbar :: "world \<Rightarrow> exn option \<times> world" where
  "close_progressbar w =
     (case progressbar w of
        None \<Rightarrow> (Some AttributeError, w)
      | Some i \<Rightarrow>
          (None, emit CloseBar
             (w\<lparr>bars := (bars w)[i := (bars w ! i)\<lparr>bar_closes := Suc (bar_closes (bars w ! i))\<rparr>]\<rparr>)))"

text \<open>
  \<open>wrapped_task\<close>: the task, then the bar is closed; an exception of the task leaves
  before the bar is closed.
\<close>

definition wrapped_task :: "env \<Rightarrow> operation \<Rightarrow> world \<Rightarrow> exn option \<times> world" where
  "wrapped_task E op w =
     (case task E op w of
        (Some e, w') \<Rightarrow> (Some e, w')
      | (None, w') \<Rightarrow> (if PROGRESS E then close_progressbar w' else (None, w')))"

text \<open>
  A worker runs to its end: \<open>wrapped_task\<close> on the state of that moment; an exception
  ends the thread and goes to the error stream. Nothing happens to a thread that has
  ended. Between the start of a worker and its end the caller can only wait, so the
  worker's effects are taken in one step, at its end.
\<close>

definition finish :: "env \<Rightarrow> nat \<Rightarrow> world \<Rightarrow> world" where
  "finish E i w =
     (if i < length (threads w) \<and> alive (threads w ! i) then
        (case wrapped_task E (target (threads w ! i)) w of
           (e, w') \<Rightarrow>
             w'\<lparr>threads := (threads w')[i := (threads w' ! i)\<lparr>alive := False\<rparr>],
                stderr := (case e of None \<Rightarrow> stderr w' | Some x \<Rightarrow> stderr w' @ [x])\<rparr>)
      else w)"

text \<open>
  \<open>Thread.join(timeout)\<close>, as CPython 3.11 has it. A thread marked as stopped is not
  waited for. Without a timeout the call returns when the thread has ended, and marks
  it. With a timeout above \<open>TIMEOUT_MAX\<close> the lock raises \<open>OverflowError\<close>, and the
  handler of \<open>_wait_for_tstate_lock\<close> marks a thread that is still running as
  stopped before it lets the exception through. With any other timeout the call
  returns with a running thread as it is (a thread that ends while the caller waits
  has its own step \<open>WorkerDone\<close> before the wait) and marks a thread that has ended.
\<close>

definition is_running :: "nat \<Rightarrow> world \<Rightarrow> bool" where
  "is_running i w = (i < length (threads w) \<and> alive (threads w ! i))"

definition mark_stopped :: "nat \<Rightarrow> world \<Rightarrow> world" where
  "mark_stopped i w = w\<lparr>stopped := insert i (stopped w)\<rparr>"

definition join :: "env \<Rightarrow> nat \<Rightarrow> int option \<Rightarrow> world \<Rightarrow> exn option \<times> world" where
  "join E i timeout w =
     (if i \<in> stopped w then (None, w)
      else
        (case timeout of
           None \<Rightarrow> (None, mark_stopped i (finish E i w))
         | Some t \<Rightarrow>
             if TIMEOUT_MAX E < t then
               (Some OverflowError, if is_running i w then mark_stopped i w else w)
             else if is_running i w then (None, w)
             else (None, mark_stopped i w)))"

definition wait :: "env \<Rightarrow> int option \<Rightarrow> world \<Rightarrow> exn option \<times> world" where
  "wait E timeout w =
     (case thread (self w) of None \<Rightarrow> (None, w) | Some i \<Rightarrow> join E i timeout w)"

text \<open>\<open>tqdm.tqdm(total=self.iterations)\<close>, bound to the module variable.\<close>

definition new_progressbar :: "world \<Rightarrow> world" where
  "new_progressbar w =
     emit (NewBar (iterations (self w)))
       (w\<lparr>bars := bars w @ [\<lparr>bar_total = iterations (self w), bar_n = 0, bar_closes = 0\<rparr>],
          progressbar := Some (length (bars w))\<rparr>)"

text \<open>
  \<open>Thread(target=wrapped_task, daemon=True)\<close> and \<open>start()\<close>: a new \<open>Thread\<close>
  object, running and not marked as stopped.
\<close>

definition start_thread :: "operation \<Rightarrow> world \<Rightarrow> world" where
  "start_thread op w =
     emit (StartThread (length (threads w)))
       (w\<lparr>threads := threads w @ [\<lparr>target = op, alive = True\<rparr>],
          stopped := stopped w - {length (threads w)},
          self := (self w)\<lparr>thread := Some (length (threads w))\<rparr>\<rparr>)"

text \<open>
  \<open>_run\<close>: in background mode \<open>self.wait()\<close> comes first; then the new progress
  bar; then the task, inline or on a new thread.
\<close>

definition run :: "env \<Rightarrow> operation \<Rightarrow> world \<Rightarrow> exn option \<times> world" where
  "run E op w =
     (case (if \<not> blocking (self w) then wait E None w else (None, w)) of
        (Some e, w1) \<Rightarrow> (Some e, w1)
      | (None, w1) \<Rightarrow>
          (let w2 = (if PROGRESS E then new_progressbar w1 else w1)
           in if blocking (self w2) then wrapped_task E op w2
              else (None, start_thread op w2)))"

definition compute :: "env \<Rightarrow> world \<Rightarrow> exn option \<times> world" where
  "compute E w = run E ComputeTask w"

definition verify :: "env \<Rightarrow> world \<Rightarrow> exn option \<times> world" where
  "verify E w = run E VerifyTask w"

subsection \<open>Schedules\<close>

text \<open>
  What happens to the object: the caller's calls, one after the other, and the end of
  a worker in between.
\<close>

datatype action = Compute | Verify | Wait "int option" | WorkerDone nat

fun call :: "env \<Rightarrow> action \<Rightarrow> world \<Rightarrow> exn option \<times> world" where
  "call E Compute w = compute E w"
| "call E Verify w = verify E w"
| "call E (Wait timeout) w = wait E timeout w"
| "call E (WorkerDone i) w = (None, finish E i w)"

text \<open>
  A schedule, with what each call raised; the caller goes on after an exception.
\<close>

fun exec :: "env \<Rightarrow> action list \<Rightarrow> world \<Rightarrow> exn option list \<times> world" where
  "exec E [] w = ([], w)"
| "exec E (a # as) w =
     (case call E a w of
        (e, w') \<Rightarrow> (case exec E as w' of (es, w'') \<Rightarrow> (e # es, w'')))"
subsection \<open>Notions used in the properties\<close>

text \<open>
  The condition of the specification for refusing a constructor call, in its words:
  the bit width is not an integer multiple of 512, or the bit width or the iteration
  count is not a positive integer.
\<close>

definition positive_integer :: "pyobj \<Rightarrow> bool" where
  "positive_integer x = (isinstance_int x \<and> 0 < int_value x)"

definition spec_InvalidParameter :: "pyobj \<Rightarrow> pyobj \<Rightarrow> bool" where
  "spec_InvalidParameter bits0 iterations0 =
     (\<not> (isinstance_int bits0 \<and> int_value bits0 mod 512 = 0)
      \<or> \<not> positive_integer bits0 \<or> \<not> positive_integer iterations0)"

text \<open>The workers that are running, by their place in the store.\<close>

definition running :: "world \<Rightarrow> nat list" where
  "running w = filter (\<lambda>j. alive (threads w ! j)) [0..<length (threads w)]"



text \<open>Two states with the same object, the same workers and the same marks.\<close>

definition same_object :: "world \<Rightarrow> world \<Rightarrow> bool" where
  "same_object w1 w2 = (self w1 = self w2 \<and> threads w1 = threads w2 \<and> stopped w1 = stopped w2)"

text \<open>
  The contract the specification gives the library: the verification returns 1 for
  every witness and output that \<open>sloth\<close> produced for the same \<open>data\<close>, \<open>bits\<close>
  and \<open>iterations\<close>, as \<open>compute_task\<close> reads them from the memory.
\<close>

definition primitive_contract :: "env \<Rightarrow> bool" where
  "primitive_contract E =
     (\<forall>wit out d b i r. sloth E wit out d b i = Inr r \<longrightarrow>
        (\<exists>ds. sloth_verification E (map (witness_mem r) [0..<witness_size r])
                (witness_size r) (Some (map (out_mem r) [0..<64])) d b i =
              Inr (ds, 1)))"

text \<open>
  The state in which the task of a call begins: after the wait of the background
  mode, with the new progress bar in place and, in background mode, the thread
  started.
\<close>

definition started :: "env \<Rightarrow> operation \<Rightarrow> world \<Rightarrow> world" where
  "started E op w =
     (let w1 = (if blocking (self w) then w else snd (wait E None w));
          w2 = (if PROGRESS E then new_progressbar w1 else w1)
      in if blocking (self w) then w2 else start_thread op w2)"

text \<open>
  The library call of a task is made and raises \<open>e\<close>: the call of \<open>sloth\<close> that
  \<open>compute_task\<close> makes for the object, once both buffers are allocated, or the call
  of \<open>sloth_verification\<close> that \<open>verify_task\<close> makes for it.
\<close>

definition primitive_raises :: "env \<Rightarrow> operation \<Rightarrow> Sloth \<Rightarrow> exn \<Rightarrow> bool" where
  "primitive_raises E op s e =
     (case op of
        ComputeTask \<Rightarrow>
          can_allocate E 64 \<and>
          (case witness_len (bits s) of
             Inl x \<Rightarrow> False
           | Inr len \<Rightarrow>
               0 \<le> len \<and> can_allocate E (nat len) \<and>
               sloth E (replicate (nat len) 0) (replicate 64 0)
                 (data s) (bits s) (iterations s) = Inl e)
      | VerifyTask \<Rightarrow>
          (case witness s of
             None \<Rightarrow> False
           | Some wt \<Rightarrow>
               sloth_verification E wt (length wt) (final_hash s) (data s) (bits s)
                 (iterations s) = Inl e))"

subsection \<open>Example environments and objects\<close>

text \<open>
  A platform that allocates up to 4 GiB and has the \<open>TIMEOUT_MAX\<close> of 64-bit Linux,
  with a library that answers: \<open>sloth\<close> reports all iterations at once, writes one
  byte of witness and fills the output with the byte 9; \<open>sloth_verification\<close> accepts
  that witness with such an output and nothing else.
\<close>

definition demo_env :: "bool \<Rightarrow> env" where
  "demo_env p =
     \<lparr>PROGRESS = p,
      can_allocate = (\<lambda>n. n \<le> 4294967296),
      TIMEOUT_MAX = 9223372036,
      sloth = (\<lambda>wit out d b i.
        Inr \<lparr>deltas = [i], witness_mem = (\<lambda>k. 7), witness_size = 1, out_mem = (\<lambda>k. 9)\<rparr>),
      sloth_verification = (\<lambda>wt n h d b i.
        Inr ([i], if wt = [7] \<and> n = 1 \<and> (case h of None \<Rightarrow> False | Some hh \<Rightarrow> set hh \<subseteq> {9})
                  then 1 else 0))\<rparr>"

text \<open>The same platform with a library whose calls raise.\<close>

definition failing_env :: "bool \<Rightarrow> env" where
  "failing_env p =
     \<lparr>PROGRESS = p,
      can_allocate = (\<lambda>n. n \<le> 4294967296),
      TIMEOUT_MAX = 9223372036,
      sloth = (\<lambda>wit out d b i. Inl PrimitiveFailure),
      sloth_verification = (\<lambda>wt n h d b i. Inl PrimitiveFailure)\<rparr>"

text \<open>
  \<open>Sloth(b"hi", bits=512, iterations=3, blocking=m)\<close>, as the constructor makes it.
\<close>

definition demo_task :: "bool \<Rightarrow> Sloth" where
  "demo_task m =
     \<lparr>data = Some [104, 105], bits = 512, iterations = 3, final_hash = None, witness = None,
      valid = None, blocking = m, thread = None\<rparr>"

text \<open>The same object with the witness and the output of \<open>demo_env\<close> in place.\<close>

definition demo_proved_task :: "bool \<Rightarrow> Sloth" where
  "demo_proved_task m = (demo_task m)\<lparr>final_hash := Some (replicate 64 9), witness := Some [7]\<rparr>"

section \<open>Properties\<close>

subsection \<open>Construction\<close>

lemma utf8_char_error: "utf8_char c = Inl e \<Longrightarrow> e = UnicodeEncodeError"
  by (auto simp: utf8_char_def split: if_splits)

lemma encode_utf8_error: "encode_utf8 cs = Inl e \<Longrightarrow> e = UnicodeEncodeError"
  by (induction cs) (auto split: sum.splits dest: utf8_char_error)

lemma data_setter_error: "data_setter v = Inl e \<Longrightarrow> e = UnicodeEncodeError"
  by (cases v) (auto dest: encode_utf8_error simp del: encode_utf8.simps)

text \<open>
  Claim C2, as the specification states it, fails: it has the constructor refuse every
  bit width and iteration count that is not a positive integer, and the constructor
  accepts the bit width 0 and the iteration count -3.
\<close>

theorem init_accepts_nonpositive:
  "spec_InvalidParameter (IntObj 0) (IntObj (- 3)) \<and>
   init PyNone (IntObj 0) (IntObj (- 3)) None None True =
     Inr \<lparr>data = None, bits = 0, iterations = - 3, final_hash = None, witness = None,
          valid = None, blocking = True, thread = None\<rparr>"
  by (simp add: spec_InvalidParameter_def positive_integer_def init_def)

text \<open>
  Claim C2, amended: the constructor fails with \<open>AssertionError\<close> exactly when
  \<open>bits\<close> is not an \<open>int\<close>, or is not a multiple of 512, or \<open>iterations\<close> is not an
  \<open>int\<close>. The sign of neither is checked. The assertions come before the first
  assignment, so a refused call has made no object.
\<close>

theorem init_AssertionError_iff:
  "(init d b i h wt m = Inl AssertionError) =
     (\<not> isinstance_int b \<or> int_value b mod 512 \<noteq> 0 \<or> \<not> isinstance_int i)"
  by (auto simp: init_def split: sum.splits dest: data_setter_error)

theorem init_AssertionError_iff_witness:
  "init (PyStr [104, 105]) (IntObj 513) (IntObj 10) None None True = Inl AssertionError \<and>
   init (PyStr [104, 105]) (IntObj 1024) (IntObj 10) None None True =
     Inr \<lparr>data = Some [104, 105], bits = 1024, iterations = 10, final_hash = None,
          witness = None, valid = None, blocking = True, thread = None\<rparr>"
  using init_AssertionError_iff [of "PyStr [104, 105]" "IntObj 513" "IntObj 10" None None True]
  by (simp add: init_def utf8_char_def)
subsection \<open>The length of the witness buffer\<close>

text \<open>
  Up to 53 bits the division is exact, and a bit width that is not negative gives a
  length that is not negative.
\<close>

declare bit_length.simps [simp del]

lemma bit_length_le: "a < 2 ^ k \<Longrightarrow> bit_length a \<le> k"
proof (induction k arbitrary: a)
  case 0
  then show ?case by (simp add: bit_length.simps)
next
  case (Suc k)
  show ?case
  proof (cases "a \<le> 0")
    case True
    then show ?thesis by (simp add: bit_length.simps)
  next
    case False
    have "a div 2 < 2 ^ k" using Suc.prems by simp
    from Suc.IH [OF this] False show ?thesis by (simp add: bit_length.simps [of a])
  qed
qed

lemma round53_exact: "a < 2 ^ 53 \<Longrightarrow> round53 a = a"
  using bit_length_le [of a 53] by (simp add: round53_def)

lemma witness_len_exact:
  assumes "0 \<le> b" and "b < 2 ^ 53"
  shows "witness_len b = Inr (b div 8)"
proof -
  have m: "round53 \<bar>b\<bar> = b" using round53_exact [of "\<bar>b\<bar>"] assms by simp
  have "(2::int) ^ 53 < 2 ^ 1027" by simp
  with assms have small: "\<not> (2::int) ^ 1027 \<le> b" by linarith
  show ?thesis
    unfolding witness_len_def Let_def m using small assms(1) by simp
qed

lemma round53_nonneg: "0 \<le> a \<Longrightarrow> 0 \<le> round53 a"
proof -
  assume a: "0 \<le> a"
  have "0 \<le> a div 2 ^ k" for k :: nat using a by (simp add: pos_imp_zdiv_nonneg_iff)
  then show ?thesis using a by (simp add: round53_def Let_def)
qed

lemma witness_len_nonneg: "0 \<le> b \<Longrightarrow> witness_len b = Inr len \<Longrightarrow> 0 \<le> len"
  using round53_nonneg [of "\<bar>b\<bar>"]
  by (auto simp: witness_len_def Let_def pos_imp_zdiv_nonneg_iff split: if_splits)

subsection \<open>What each step leaves alone\<close>

lemma emit_simps [simp]:
  "self (emit ev w) = self w" "progressbar (emit ev w) = progressbar w"
  "bars (emit ev w) = bars w" "threads (emit ev w) = threads w"
  "stderr (emit ev w) = stderr w" "trace (emit ev w) = trace w @ [ev]"
  "stopped (emit ev w) = stopped w"
  by (simp_all add: emit_def)

lemma update_progress_frame [simp]:
  "self (update_progress E d w) = self w"
  "progressbar (update_progress E d w) = progressbar w"
  "threads (update_progress E d w) = threads w"
  "stderr (update_progress E d w) = stderr w"
  "trace (update_progress E d w) = trace w"
  "stopped (update_progress E d w) = stopped w"
  "length (bars (update_progress E d w)) = length (bars w)"
  by (simp_all add: update_progress_def split: option.splits)

lemma callbacks_frame [simp]:
  "self (callbacks E ds w) = self w"
  "progressbar (callbacks E ds w) = progressbar w"
  "threads (callbacks E ds w) = threads w"
  "stderr (callbacks E ds w) = stderr w"
  "trace (callbacks E ds w) = trace w"
  "stopped (callbacks E ds w) = stopped w"
  "length (bars (callbacks E ds w)) = length (bars w)"
  by (induction ds arbitrary: w) simp_all

lemma compute_task_frame:
  "progressbar (snd (compute_task E w)) = progressbar w"
  "threads (snd (compute_task E w)) = threads w"
  "stderr (snd (compute_task E w)) = stderr w"
  "length (bars (snd (compute_task E w))) = length (bars w)"
  "thread (self (snd (compute_task E w))) = thread (self w)"
  "blocking (self (snd (compute_task E w))) = blocking (self w)"
  "stopped (snd (compute_task E w)) = stopped w"
  by (simp_all add: compute_task_def Let_def split: sum.splits)

lemma verify_task_frame:
  "progressbar (snd (verify_task E w)) = progressbar w"
  "threads (snd (verify_task E w)) = threads w"
  "stderr (snd (verify_task E w)) = stderr w"
  "length (bars (snd (verify_task E w))) = length (bars w)"
  "thread (self (snd (verify_task E w))) = thread (self w)"
  "blocking (self (snd (verify_task E w))) = blocking (self w)"
  "stopped (snd (verify_task E w)) = stopped w"
  by (simp_all add: verify_task_def Let_def split: sum.splits option.splits prod.splits)

lemma task_frame [simp]:
  "progressbar (snd (task E op w)) = progressbar w"
  "threads (snd (task E op w)) = threads w"
  "stderr (snd (task E op w)) = stderr w"
  "length (bars (snd (task E op w))) = length (bars w)"
  "thread (self (snd (task E op w))) = thread (self w)"
  "blocking (self (snd (task E op w))) = blocking (self w)"
  "stopped (snd (task E op w)) = stopped w"
  by (cases op; simp add: compute_task_frame verify_task_frame)+

lemma close_progressbar_frame [simp]:
  "self (snd (close_progressbar w)) = self w"
  "progressbar (snd (close_progressbar w)) = progressbar w"
  "threads (snd (close_progressbar w)) = threads w"
  "stderr (snd (close_progressbar w)) = stderr w"
  "length (bars (snd (close_progressbar w))) = length (bars w)"
  "stopped (snd (close_progressbar w)) = stopped w"
  by (simp_all add: close_progressbar_def split: option.splits)

lemma wrapped_task_frame [simp]:
  "self (snd (wrapped_task E op w)) = self (snd (task E op w))"
  "progressbar (snd (wrapped_task E op w)) = progressbar w"
  "threads (snd (wrapped_task E op w)) = threads w"
  "stderr (snd (wrapped_task E op w)) = stderr w"
  "length (bars (snd (wrapped_task E op w))) = length (bars w)"
  "stopped (snd (wrapped_task E op w)) = stopped w"
proof -
  obtain e w' where t: "task E op w = (e, w')" by (cases "task E op w")
  have f: "progressbar w' = progressbar w" "threads w' = threads w" "stderr w' = stderr w"
    "length (bars w') = length (bars w)" "stopped w' = stopped w"
    using task_frame [of E op w] by (simp_all add: t)
  show "self (snd (wrapped_task E op w)) = self (snd (task E op w))"
    "progressbar (snd (wrapped_task E op w)) = progressbar w"
    "threads (snd (wrapped_task E op w)) = threads w"
    "stderr (snd (wrapped_task E op w)) = stderr w"
    "length (bars (snd (wrapped_task E op w))) = length (bars w)"
    "stopped (snd (wrapped_task E op w)) = stopped w"
    by (cases e; simp add: wrapped_task_def t f)+
qed
subsection \<open>Workers\<close>

lemma finish_frame [simp]:
  "thread (self (finish E i w)) = thread (self w)"
  "blocking (self (finish E i w)) = blocking (self w)"
  "length (threads (finish E i w)) = length (threads w)"
  "progressbar (finish E i w) = progressbar w"
  "stopped (finish E i w) = stopped w"
proof -
  obtain e w' where t: "wrapped_task E (target (threads w ! i)) w = (e, w')"
    by (cases "wrapped_task E (target (threads w ! i)) w")
  have f: "self w' = self (snd (task E (target (threads w ! i)) w))"
    "threads w' = threads w" "progressbar w' = progressbar w" "stopped w' = stopped w"
    using wrapped_task_frame [of E "target (threads w ! i)" w] by (simp_all add: t)
  show "thread (self (finish E i w)) = thread (self w)"
    "blocking (self (finish E i w)) = blocking (self w)"
    "length (threads (finish E i w)) = length (threads w)"
    "progressbar (finish E i w) = progressbar w"
    "stopped (finish E i w) = stopped w"
    by (simp_all add: finish_def t f)
qed

lemma finish_alive:
  "j < length (threads w) \<Longrightarrow>
   alive (threads (finish E i w) ! j) = (alive (threads w ! j) \<and> j \<noteq> i)"
proof -
  assume j: "j < length (threads w)"
  obtain e w' where t: "wrapped_task E (target (threads w ! i)) w = (e, w')"
    by (cases "wrapped_task E (target (threads w ! i)) w")
  have f: "threads w' = threads w"
    using wrapped_task_frame(3) [of E "target (threads w ! i)" w] by (simp add: t)
  show ?thesis using j
    by (auto simp: finish_def t f nth_list_update)
qed

lemma mark_stopped_simps [simp]:
  "self (mark_stopped i w) = self w" "progressbar (mark_stopped i w) = progressbar w"
  "bars (mark_stopped i w) = bars w" "threads (mark_stopped i w) = threads w"
  "stderr (mark_stopped i w) = stderr w" "trace (mark_stopped i w) = trace w"
  "stopped (mark_stopped i w) = insert i (stopped w)"
  by (simp_all add: mark_stopped_def)

text \<open>What a \<open>join\<close> can leave: the state, the state marked, or the ended worker marked.\<close>

lemma join_cases:
  "snd (join E i t w) = w \<or> snd (join E i t w) = mark_stopped i w \<or>
   (t = None \<and> i \<notin> stopped w \<and> snd (join E i t w) = mark_stopped i (finish E i w))"
  by (simp add: join_def split: option.splits)

lemma join_None_fst: "fst (join E i None w) = None"
  by (simp add: join_def)

lemma wait_None_fst: "fst (wait E None w) = None"
  by (simp add: wait_def join_None_fst split: option.splits)

lemma wait_None_eq: "wait E None w = (None, snd (wait E None w))"
  using wait_None_fst [of E w] by (cases "wait E None w") simp

lemma join_frame:
  "thread (self (snd (join E i t w))) = thread (self w)"
  "blocking (self (snd (join E i t w))) = blocking (self w)"
  "length (threads (snd (join E i t w))) = length (threads w)"
  "progressbar (snd (join E i t w)) = progressbar w"
  using join_cases [of E i t w] by auto

lemma wait_frame [simp]:
  "thread (self (snd (wait E t w))) = thread (self w)"
  "blocking (self (snd (wait E t w))) = blocking (self w)"
  "length (threads (snd (wait E t w))) = length (threads w)"
  "progressbar (snd (wait E t w)) = progressbar w"
  by (simp_all add: wait_def join_frame split: option.splits)

lemma join_alive:
  "j < length (threads w) \<Longrightarrow> alive (threads (snd (join E i t w)) ! j) \<Longrightarrow>
   alive (threads w ! j)"
  using join_cases [of E i t w] by (auto simp: finish_alive)

lemma wait_alive:
  "j < length (threads w) \<Longrightarrow> alive (threads (snd (wait E t w)) ! j) \<Longrightarrow>
   alive (threads w ! j)"
  by (auto simp: wait_def dest: join_alive split: option.splits)


lemma new_progressbar_frame [simp]:
  "self (new_progressbar w) = self w" "threads (new_progressbar w) = threads w"
  "stderr (new_progressbar w) = stderr w" "stopped (new_progressbar w) = stopped w"
  "progressbar (new_progressbar w) = Some (length (bars w))"
  by (simp_all add: new_progressbar_def)

text \<open>\<open>_run\<close>, with its wait taken into the state the task begins in.\<close>

lemma run_started:
  "run E op w =
     (if blocking (self w) then wrapped_task E op (started E op w)
      else (None, started E op w))"
proof (cases "blocking (self w)")
  case True
  then show ?thesis by (simp add: run_def started_def Let_def)
next
  case False
  obtain w1 where e: "wait E None w = (None, w1)"
    using wait_None_eq [of E w] by blast
  have b: "blocking (self w1) = blocking (self w)"
    using wait_frame(2) [of E None w] by (simp add: e)
  show ?thesis using False by (simp add: run_def started_def Let_def e b)
qed









lemma exec_Cons:
  "snd (exec E (a # as) w) = snd (exec E as (snd (call E a w)))"
  "fst (exec E (a # as) w) = fst (call E a w) # fst (exec E as (snd (call E a w)))"
  by (simp_all split: prod.splits)



subsection \<open>Running the model on the examples\<close>

lemmas model_defs =
  compute_def verify_def run_def wait_def join_def finish_def wrapped_task_def
  compute_task_def verify_task_def ffi_new_def close_progressbar_def
  new_progressbar_def start_thread_def emit_def update_progress_def module_init_def
  mark_stopped_def is_running_def Let_def

lemma witness_len_512 [simp]: "witness_len 512 = Inr 64"
  using witness_len_exact [of 512] by simp

lemma init_demo_task:
  "init (PyBytes [104, 105]) (IntObj 512) (IntObj 3) None None m = Inr (demo_task m)"
  by (simp add: init_def demo_task_def)

subsection \<open>The worker handle\<close>

lemma init_fields:
  "init d b i h wt m = Inr s \<Longrightarrow> thread s = None \<and> blocking s = m \<and> valid s = None"
  by (auto simp: init_def split: if_splits sum.splits)


lemma run_frame:
  "blocking (self (snd (run E op w))) = blocking (self w)"
  "blocking (self w) \<Longrightarrow> thread (self (snd (run E op w))) = thread (self w)"
  "blocking (self w) \<Longrightarrow> threads (snd (run E op w)) = threads w"
  by (simp_all add: run_started started_def Let_def start_thread_def)

lemma call_blocking: "blocking (self (snd (call E a w))) = blocking (self w)"
  by (cases a) (simp_all add: compute_def verify_def run_frame)


lemma wait_no_thread: "thread (self w) = None \<Longrightarrow> wait E t w = (None, w)"
  by (simp add: wait_def)

lemma call_no_thread:
  "blocking (self w) \<Longrightarrow> thread (self w) = None \<Longrightarrow> thread (self (snd (call E a w))) = None"
  by (cases a) (simp_all add: compute_def verify_def run_frame)

lemma exec_no_thread:
  "blocking (self w) \<Longrightarrow> thread (self w) = None \<Longrightarrow> thread (self (snd (exec E acts w))) = None"
proof (induction acts arbitrary: w)
  case Nil
  then show ?case by simp
next
  case (Cons a acts)
  have "blocking (self (snd (call E a w)))" using Cons.prems by (simp add: call_blocking)
  moreover have "thread (self (snd (call E a w))) = None"
    using Cons.prems by (rule call_no_thread)
  ultimately show ?case using Cons.IH by (simp only: exec_Cons)
qed






text \<open>
  Claim C10: an object made with \<open>blocking=True\<close> has no worker handle: \<open>thread\<close> is
  \<open>None\<close> after the constructor and after every sequence of calls, and \<open>wait\<close> with
  any timeout returns at once and changes nothing.
\<close>

theorem blocking_thread_stays_None:
  assumes "init d b i h wt True = Inr s"
  shows "thread s = None \<and>
         thread (self (snd (exec E acts (module_init s)))) = None \<and>
         call E (Wait t) (snd (exec E acts (module_init s))) =
           (None, snd (exec E acts (module_init s)))"
proof -
  from init_fields [OF assms] have s: "thread s = None" "blocking s" by simp_all
  then have "thread (self (snd (exec E acts (module_init s)))) = None"
    by (intro exec_no_thread) (simp_all add: module_init_def)
  then show ?thesis using s by (simp add: wait_def)
qed

theorem blocking_thread_stays_None_witness:
  "init (PyBytes [104, 105]) (IntObj 512) (IntObj 3) None None True = Inr (demo_task True) \<and>
   thread (demo_task True) = None \<and>
   thread (self (snd (exec (demo_env True) [Compute, Verify] (module_init (demo_task True))))) = None \<and>
   call (demo_env True) (Wait (Some 5)) (snd (exec (demo_env True) [Compute, Verify] (module_init (demo_task True)))) =
     (None, snd (exec (demo_env True) [Compute, Verify] (module_init (demo_task True))))"
  using blocking_thread_stays_None [OF init_demo_task,
      of "demo_env True" "[Compute, Verify]" "Some 5"] init_demo_task [of True]
  by simp

subsection \<open>The progress toggle\<close>

text \<open>
  The outcome of a task and the object it leaves depend on the object and the library
  only.
\<close>

lemma task_indep:
  assumes "sloth E1 = sloth E2" "sloth_verification E1 = sloth_verification E2"
    "can_allocate E1 = can_allocate E2"
    and "self w1 = self w2"
  shows "fst (task E1 op w1) = fst (task E2 op w2)"
    and "self (snd (task E1 op w1)) = self (snd (task E2 op w2))"
  using assms
  by (cases op;
      simp add: compute_task_def verify_task_def ffi_new_def Let_def
        split: sum.splits option.splits prod.splits)+

lemma wrapped_task_fst:
  "PROGRESS E \<longrightarrow> progressbar w \<noteq> None \<Longrightarrow> fst (wrapped_task E op w) = fst (task E op w)"
proof -
  assume p: "PROGRESS E \<longrightarrow> progressbar w \<noteq> None"
  obtain e w' where t: "task E op w = (e, w')" by (cases "task E op w")
  have "progressbar w' = progressbar w" using task_frame(1) [of E op w] by (simp add: t)
  with p show ?thesis
    by (cases e) (auto simp: wrapped_task_def t close_progressbar_def)
qed

lemma finish_self:
  "self (finish E i w) =
     (if i < length (threads w) \<and> alive (threads w ! i)
      then self (snd (task E (target (threads w ! i)) w)) else self w)"
proof -
  obtain e w' where t: "wrapped_task E (target (threads w ! i)) w = (e, w')"
    by (cases "wrapped_task E (target (threads w ! i)) w")
  have "self w' = self (snd (task E (target (threads w ! i)) w))"
    using wrapped_task_frame(1) [of E "target (threads w ! i)" w] by (simp add: t)
  then show ?thesis by (simp add: finish_def t)
qed

lemma finish_threads:
  "threads (finish E i w) =
     (if i < length (threads w) \<and> alive (threads w ! i)
      then (threads w)[i := (threads w ! i)\<lparr>alive := False\<rparr>] else threads w)"
proof -
  obtain e w' where t: "wrapped_task E (target (threads w ! i)) w = (e, w')"
    by (cases "wrapped_task E (target (threads w ! i)) w")
  have "threads w' = threads w"
    using wrapped_task_frame(3) [of E "target (threads w ! i)" w] by (simp add: t)
  then show ?thesis by (simp add: finish_def t)
qed

lemma same_object_finish:
  assumes "sloth E1 = sloth E2" "sloth_verification E1 = sloth_verification E2"
    "can_allocate E1 = can_allocate E2" "TIMEOUT_MAX E1 = TIMEOUT_MAX E2"
    and "same_object w1 w2"
  shows "same_object (finish E1 i w1) (finish E2 i w2)"
  using assms task_indep(2) [of E1 E2 w1 w2]
  by (simp add: same_object_def finish_self finish_threads)

lemma same_object_mark:
  "same_object w1 w2 \<Longrightarrow> same_object (mark_stopped i w1) (mark_stopped i w2)"
  by (simp add: same_object_def)

lemma same_object_join:
  assumes "sloth E1 = sloth E2" "sloth_verification E1 = sloth_verification E2"
    "can_allocate E1 = can_allocate E2" "TIMEOUT_MAX E1 = TIMEOUT_MAX E2"
    and "same_object w1 w2"
  shows "fst (join E1 i t w1) = fst (join E2 i t w2)"
    and "same_object (snd (join E1 i t w1)) (snd (join E2 i t w2))"
proof -
  have s: "stopped w1 = stopped w2" "is_running i w1 = is_running i w2"
    using assms(5) by (simp_all add: same_object_def is_running_def)
  show "fst (join E1 i t w1) = fst (join E2 i t w2)"
    using assms(4) s by (simp add: join_def split: option.splits)
  show "same_object (snd (join E1 i t w1)) (snd (join E2 i t w2))"
    using assms(4,5) s same_object_mark [OF same_object_finish [OF assms], of i i]
      same_object_mark [OF assms(5), of i]
    by (simp add: join_def split: option.splits)
qed

lemma same_object_wait:
  assumes "sloth E1 = sloth E2" "sloth_verification E1 = sloth_verification E2"
    "can_allocate E1 = can_allocate E2" "TIMEOUT_MAX E1 = TIMEOUT_MAX E2"
    and "same_object w1 w2"
  shows "fst (wait E1 t w1) = fst (wait E2 t w2)"
    and "same_object (snd (wait E1 t w1)) (snd (wait E2 t w2))"
proof -
  have "thread (self w1) = thread (self w2)" using assms(5) by (simp add: same_object_def)
  then show "fst (wait E1 t w1) = fst (wait E2 t w2)"
    "same_object (snd (wait E1 t w1)) (snd (wait E2 t w2))"
    using assms(5) same_object_join [OF assms]
    by (simp_all add: wait_def split: option.splits)
qed

lemma same_object_run:
  assumes lib: "sloth E1 = sloth E2" "sloth_verification E1 = sloth_verification E2"
    "can_allocate E1 = can_allocate E2" "TIMEOUT_MAX E1 = TIMEOUT_MAX E2"
    and so: "same_object w1 w2"
  shows "fst (run E1 op w1) = fst (run E2 op w2)"
    and "same_object (snd (run E1 op w1)) (snd (run E2 op w2))"
proof -
  define u1 where "u1 = (if blocking (self w1) then w1 else snd (wait E1 None w1))"
  define u2 where "u2 = (if blocking (self w2) then w2 else snd (wait E2 None w2))"
  define v1 where "v1 = (if PROGRESS E1 then new_progressbar u1 else u1)"
  define v2 where "v2 = (if PROGRESS E2 then new_progressbar u2 else u2)"
  have b: "blocking (self w1) = blocking (self w2)" using so by (simp add: same_object_def)
  have u: "same_object u1 u2"
    using so same_object_wait(2) [OF lib so] by (simp add: u1_def u2_def b)
  have v: "self v1 = self v2" "threads v1 = threads v2" "stopped v1 = stopped v2"
    using u by (simp_all add: v1_def v2_def same_object_def)
  have p1: "PROGRESS E1 \<longrightarrow> progressbar v1 \<noteq> None" by (simp add: v1_def)
  have p2: "PROGRESS E2 \<longrightarrow> progressbar v2 \<noteq> None" by (simp add: v2_def)
  have r1: "run E1 op w1 = (if blocking (self w1) then wrapped_task E1 op v1
                            else (None, start_thread op v1))"
    by (simp add: run_started started_def Let_def v1_def u1_def)
  have r2: "run E2 op w2 = (if blocking (self w2) then wrapped_task E2 op v2
                            else (None, start_thread op v2))"
    by (simp add: run_started started_def Let_def v2_def u2_def)
  show "fst (run E1 op w1) = fst (run E2 op w2)"
    using task_indep(1) [OF lib(1,2,3) v(1)]
    by (simp add: r1 r2 b wrapped_task_fst [OF p1] wrapped_task_fst [OF p2])
  show "same_object (snd (run E1 op w1)) (snd (run E2 op w2))"
    using task_indep(2) [OF lib(1,2,3) v(1)] v
    by (simp add: r1 r2 b same_object_def start_thread_def emit_def)
qed

lemma same_object_call:
  assumes "sloth E1 = sloth E2" "sloth_verification E1 = sloth_verification E2"
    "can_allocate E1 = can_allocate E2" "TIMEOUT_MAX E1 = TIMEOUT_MAX E2"
    and "same_object w1 w2"
  shows "fst (call E1 a w1) = fst (call E2 a w2)"
    and "same_object (snd (call E1 a w1)) (snd (call E2 a w2))"
  using same_object_run [OF assms] same_object_wait [OF assms] same_object_finish [OF assms]
  by (cases a; simp add: compute_def verify_def)+

lemma same_object_exec:
  assumes "sloth E1 = sloth E2" "sloth_verification E1 = sloth_verification E2"
    "can_allocate E1 = can_allocate E2" "TIMEOUT_MAX E1 = TIMEOUT_MAX E2"
    and "same_object w1 w2"
  shows "fst (exec E1 acts w1) = fst (exec E2 acts w2) \<and>
         same_object (snd (exec E1 acts w1)) (snd (exec E2 acts w2))"
  using assms(5)
proof (induction acts arbitrary: w1 w2)
  case Nil
  then show ?case by simp
next
  case (Cons a acts)
  from same_object_call [OF assms(1,2,3,4) Cons.prems, of a] Cons.IH
  show ?case by (simp only: exec_Cons)
qed

text \<open>
  Claim C9: the progress toggle makes no difference to the results. For every sequence
  of calls (and ends of workers) from every state, the run without progress reporting
  and the run with it raise the same exceptions to the caller and leave the same
  object: the same \<open>witness\<close>, \<open>final_hash\<close> and \<open>valid\<close>.
\<close>

theorem progress_toggle_same_results:
  "fst (exec (E\<lparr>PROGRESS := False\<rparr>) acts w) = fst (exec (E\<lparr>PROGRESS := True\<rparr>) acts w) \<and>
   self (snd (exec (E\<lparr>PROGRESS := False\<rparr>) acts w)) =
   self (snd (exec (E\<lparr>PROGRESS := True\<rparr>) acts w))"
  using same_object_exec [of "E\<lparr>PROGRESS := False\<rparr>" "E\<lparr>PROGRESS := True\<rparr>" w w acts]
  by (simp add: same_object_def)
subsection \<open>A call made when no worker is running\<close>

lemma running_Nil_iff: "running w = [] \<longleftrightarrow> (\<forall>j<length (threads w). \<not> alive (threads w ! j))"
  by (auto simp: running_def filter_empty_conv)

lemma running_cong: "threads w1 = threads w2 \<Longrightarrow> running w1 = running w2"
  by (simp add: running_def)

lemma finish_idle: "running w = [] \<Longrightarrow> finish E i w = w"
  by (auto simp: finish_def running_def filter_empty_conv)

lemma wait_idle:
  assumes "running w = []"
  shows "self (snd (wait E t w)) = self w" and "threads (snd (wait E t w)) = threads w"
    and "bars (snd (wait E t w)) = bars w" and "stderr (snd (wait E t w)) = stderr w"
    and "trace (snd (wait E t w)) = trace w"
proof -
  have "snd (wait E t w) = w \<or> (\<exists>i. snd (wait E t w) = mark_stopped i w)"
  proof (cases "thread (self w)")
    case None
    then show ?thesis by (simp add: wait_def)
  next
    case (Some i)
    then show ?thesis
      using join_cases [of E i t w] finish_idle [OF assms, of E i] by (auto simp: wait_def)
  qed
  then show "self (snd (wait E t w)) = self w" and "threads (snd (wait E t w)) = threads w"
    and "bars (snd (wait E t w)) = bars w" and "stderr (snd (wait E t w)) = stderr w"
    and "trace (snd (wait E t w)) = trace w"
    by auto
qed

lemma wait_twice: "snd (wait E None (snd (wait E None w))) = snd (wait E None w)"
proof (cases "thread (self w)")
  case None
  then show ?thesis by (simp add: wait_def)
next
  case (Some i)
  have t: "thread (self (snd (join E i None w))) = Some i"
    using Some by (simp add: join_frame)
  have "i \<in> stopped (snd (join E i None w))" by (simp add: join_def)
  then have "join E i None (snd (join E i None w)) = (None, snd (join E i None w))"
    by (simp add: join_def [of E i None "snd (join E i None w)"])
  then show ?thesis using Some t by (simp add: wait_def)
qed

lemma started_simps:
  assumes "running w = []"
  shows "self (started E op w) =
     (if blocking (self w) then self w else (self w)\<lparr>thread := Some (length (threads w))\<rparr>)"
    and "trace (started E op w) =
     trace w @ (if PROGRESS E then [NewBar (iterations (self w))] else [])
             @ (if blocking (self w) then [] else [StartThread (length (threads w))])"
    and "bars (started E op w) =
     (if PROGRESS E
      then bars w @ [\<lparr>bar_total = iterations (self w), bar_n = 0, bar_closes = 0\<rparr>]
      else bars w)"
    and "progressbar (started E op w) =
     (if PROGRESS E then Some (length (bars w)) else progressbar w)"
    and "stderr (started E op w) = stderr w"
    and "threads (started E op w) =
     (if blocking (self w) then threads w else threads w @ [\<lparr>target = op, alive = True\<rparr>])"
  using wait_idle [OF assms, of E None] wait_frame(4) [of E None w]
  by (simp_all add: started_def Let_def new_progressbar_def start_thread_def emit_def)

lemma started_fields:
  assumes "running w = []"
  shows "data (self (started E op w)) = data (self w)"
    and "bits (self (started E op w)) = bits (self w)"
    and "iterations (self (started E op w)) = iterations (self w)"
    and "final_hash (self (started E op w)) = final_hash (self w)"
    and "witness (self (started E op w)) = witness (self w)"
    and "valid (self (started E op w)) = valid (self w)"
  by (simp_all add: started_simps(1) [OF assms])

lemma started_background:
  assumes "\<not> blocking (self w)"
  shows "\<exists>u. started E op w = start_thread op u \<and> length (threads u) = length (threads w)"
proof -
  define u where "u = (if PROGRESS E then new_progressbar (snd (wait E None w))
                       else snd (wait E None w))"
  have "started E op w = start_thread op u" using assms by (simp add: started_def u_def)
  moreover have "length (threads u) = length (threads w)" by (simp add: u_def)
  ultimately show ?thesis by blast
qed

lemma finish_started:
  "finish E (length (threads v)) (start_thread op v) =
     (case wrapped_task E op (start_thread op v) of
        (e, w') \<Rightarrow>
          w'\<lparr>threads := threads v @ [\<lparr>target = op, alive = False\<rparr>],
             stderr := (case e of None \<Rightarrow> stderr w' | Some x \<Rightarrow> stderr w' @ [x])\<rparr>)"
proof -
  obtain e w' where t: "wrapped_task E op (start_thread op v) = (e, w')"
    by (cases "wrapped_task E op (start_thread op v)")
  have f: "threads w' = threads v @ [\<lparr>target = op, alive = True\<rparr>]"
    using wrapped_task_frame(3) [of E op "start_thread op v", unfolded t snd_conv]
    by (simp add: start_thread_def)
  have s: "threads (start_thread op v) = threads v @ [\<lparr>target = op, alive = True\<rparr>]"
    by (simp add: start_thread_def)
  show ?thesis by (simp add: finish_def t f s)
qed

lemma wait_started:
  "wait E None (start_thread op v) =
     (None, mark_stopped (length (threads v)) (finish E (length (threads v)) (start_thread op v)))"
  by (simp add: wait_def join_def start_thread_def)

lemma exec_two:
  "exec E [a, b] w =
     ([fst (call E a w), fst (call E b (snd (call E a w)))],
      snd (call E b (snd (call E a w))))"
  by (simp split: prod.splits)

lemma exec_three:
  "exec E [a, b, c] w =
     ([fst (call E a w), fst (call E b (snd (call E a w))),
       fst (call E c (snd (call E b (snd (call E a w)))))],
      snd (call E c (snd (call E b (snd (call E a w))))))"
  by (simp split: prod.splits)

lemma task_thread_update:
  assumes "self w2 = (self w1)\<lparr>thread := t\<rparr>"
  shows "fst (task E op w2) = fst (task E op w1)"
    and "self (snd (task E op w2)) = (self (snd (task E op w1)))\<lparr>thread := t\<rparr>"
  using assms
  by (cases op;
      simp add: compute_task_def verify_task_def Let_def split: sum.splits option.splits prod.splits)+

lemma wrapped_task_trace:
  "trace (snd (wrapped_task E op v)) =
     trace (snd (task E op v)) @
     (if fst (task E op v) = None \<and> PROGRESS E \<and> progressbar v \<noteq> None then [CloseBar] else [])"
proof -
  obtain e w' where t: "task E op v = (e, w')" by (cases "task E op v")
  have p: "progressbar w' = progressbar v"
    using task_frame(1) [of E op v, unfolded t snd_conv] .
  show ?thesis
    by (cases e) (auto simp: wrapped_task_def t p close_progressbar_def)
qed

lemma wrapped_task_raises:
  "fst (task E op v) = Some e \<Longrightarrow> wrapped_task E op v = task E op v"
  by (cases "task E op v") (simp add: wrapped_task_def)

text \<open>
  The call and the wait after it, in terms of the task as it runs on the state it
  begins in.
\<close>

lemma complete:
  assumes "running w = []"
  shows "self (snd (wait E None (snd (run E op w)))) =
           self (snd (wrapped_task E op (started E op w)))"
    and "trace (snd (wait E None (snd (run E op w)))) =
           trace (snd (wrapped_task E op (started E op w)))"
    and "bars (snd (wait E None (snd (run E op w)))) =
           bars (snd (wrapped_task E op (started E op w)))"
    and "stderr (snd (wait E None (snd (run E op w)))) =
           (if blocking (self w) then stderr w
            else stderr w @
              (case fst (wrapped_task E op (started E op w)) of None \<Rightarrow> [] | Some x \<Rightarrow> [x]))"
    and "threads (snd (wait E None (snd (run E op w)))) =
           (if blocking (self w) then threads w
            else threads w @ [\<lparr>target = op, alive = False\<rparr>])"
    and "fst (run E op w) =
           (if blocking (self w) then fst (wrapped_task E op (started E op w)) else None)"
proof -
  define v where "v = started E op w"
  obtain e w' where t: "wrapped_task E op v = (e, w')" by (cases "wrapped_task E op v")
  have f: "threads w' = threads v" "stderr w' = stderr v"
    using wrapped_task_frame(3,4) [of E op v] by (simp_all add: t)
  have sv: "stderr v = stderr w"
    "threads v = (if blocking (self w) then threads w
                  else threads w @ [\<lparr>target = op, alive = True\<rparr>])"
    by (simp_all add: v_def started_simps [OF assms])
  have X: "self (snd (wait E None (snd (run E op w)))) = self w' \<and>
      trace (snd (wait E None (snd (run E op w)))) = trace w' \<and>
      bars (snd (wait E None (snd (run E op w)))) = bars w' \<and>
      stderr (snd (wait E None (snd (run E op w)))) =
        (if blocking (self w) then stderr w
         else stderr w @ (case e of None \<Rightarrow> [] | Some x \<Rightarrow> [x])) \<and>
      threads (snd (wait E None (snd (run E op w)))) =
        (if blocking (self w) then threads w
         else threads w @ [\<lparr>target = op, alive = False\<rparr>])"
  proof (cases "blocking (self w)")
    case True
    have r: "snd (run E op w) = w'" using True by (simp add: run_started v_def [symmetric] t)
    have "running w' = []"
      using running_cong [of w' w] assms True by (simp add: f sv)
    from wait_idle [OF this, of E None] show ?thesis
      using True by (simp add: r f sv)
  next
    case False
    obtain u where u: "v = start_thread op u" "length (threads u) = length (threads w)"
      using started_background [OF False, of E op] unfolding v_def by blast
    have tu: "threads u = threads w"
      using sv(2) False by (simp add: u(1) start_thread_def)
    have r: "snd (run E op w) = start_thread op u"
      using False by (simp add: run_started v_def [symmetric] u(1))
    show ?thesis
      unfolding r wait_started finish_started t [unfolded u(1)]
      using False sv(1) f(2) by (simp add: tu u(1) split: option.splits)
  qed
  show "self (snd (wait E None (snd (run E op w)))) =
           self (snd (wrapped_task E op (started E op w)))"
    and "trace (snd (wait E None (snd (run E op w)))) =
           trace (snd (wrapped_task E op (started E op w)))"
    and "bars (snd (wait E None (snd (run E op w)))) =
           bars (snd (wrapped_task E op (started E op w)))"
    and "stderr (snd (wait E None (snd (run E op w)))) =
           (if blocking (self w) then stderr w
            else stderr w @
              (case fst (wrapped_task E op (started E op w)) of None \<Rightarrow> [] | Some x \<Rightarrow> [x]))"
    and "threads (snd (wait E None (snd (run E op w)))) =
           (if blocking (self w) then threads w
            else threads w @ [\<lparr>target = op, alive = False\<rparr>])"
    using X by (simp_all add: v_def [symmetric] t)
  show "fst (run E op w) =
           (if blocking (self w) then fst (wrapped_task E op (started E op w)) else None)"
    by (simp add: run_started)
qed

subsection \<open>Verifying without a witness\<close>

lemma verify_task_no_witness:
  "witness (self v) = None \<Longrightarrow> verify_task E v = (Some AssertionError, v)"
  by (simp add: verify_task_def)

text \<open>
  Claim C3, as the specification states it, fails in background mode: \<open>verify\<close> on a
  new object without witness raises nothing and starts a worker; the assertion on the
  witness is part of the task the worker runs.
\<close>

theorem verify_without_witness_background:
  "call (demo_env False) Verify (module_init (demo_task False)) =
     (None,
      \<lparr>self = (demo_task False)\<lparr>thread := Some 0\<rparr>, progressbar = None, bars = [],
       threads = [\<lparr>target = VerifyTask, alive = True\<rparr>], stopped = {}, stderr = [],
       trace = [StartThread 0]\<rparr>)"
  by (simp add: model_defs demo_env_def demo_task_def)

text \<open>
  Claim C3, amended: on an object without witness and with no worker running,
  \<open>verify\<close> in blocking mode raises \<open>AssertionError\<close> to the caller, with no thread
  started; in background mode it returns, having started a worker, and the assertion
  fails on that worker (the exception goes to the error stream). In both modes the
  library is not called (the trace has the new progress bar and the start of the
  thread, nothing else) and \<open>valid\<close> stays as it was.
\<close>

theorem verify_without_witness:
  assumes "witness (self w) = None" and "running w = []"
  shows "fst (call E Verify w) = (if blocking (self w) then Some AssertionError else None) \<and>
         threads (snd (call E Verify w)) =
           (if blocking (self w) then threads w
            else threads w @ [\<lparr>target = VerifyTask, alive = True\<rparr>]) \<and>
         trace (snd (exec E [Verify, Wait None] w)) =
           trace w @ (if PROGRESS E then [NewBar (iterations (self w))] else [])
                   @ (if blocking (self w) then [] else [StartThread (length (threads w))]) \<and>
         stderr (snd (exec E [Verify, Wait None] w)) =
           (if blocking (self w) then stderr w else stderr w @ [AssertionError]) \<and>
         valid (self (snd (exec E [Verify, Wait None] w))) = valid (self w)"
proof -
  define v where "v = started E VerifyTask w"
  have nw: "witness (self v) = None"
    using assms(1) by (simp add: v_def started_fields [OF assms(2)])
  have t: "wrapped_task E VerifyTask v = (Some AssertionError, v)"
    using wrapped_task_raises [of E VerifyTask v AssertionError]
    by (simp add: verify_task_no_witness [OF nw])
  have r: "run E VerifyTask w = (if blocking (self w) then (Some AssertionError, v) else (None, v))"
    by (simp add: run_started v_def [symmetric] t)
  note c = complete [OF assms(2), of E VerifyTask, unfolded v_def [symmetric] t fst_conv snd_conv]
  show ?thesis
    unfolding exec_two call.simps verify_def fst_conv snd_conv c
    by (simp add: r v_def started_simps [OF assms(2)])
qed

theorem verify_without_witness_witness:
  "witness (self (module_init (demo_task True))) = None \<and>
   running (module_init (demo_task True)) = [] \<and>
   fst (call (demo_env True) Verify (module_init (demo_task True))) = Some AssertionError \<and>
   threads (snd (call (demo_env True) Verify (module_init (demo_task True)))) = [] \<and>
   trace (snd (exec (demo_env True) [Verify, Wait None] (module_init (demo_task True)))) =
     [NewBar 3] \<and>
   stderr (snd (exec (demo_env True) [Verify, Wait None] (module_init (demo_task True)))) = [] \<and>
   valid (self (snd (exec (demo_env True) [Verify, Wait None] (module_init (demo_task True))))) =
     None"
proof -
  have h1: "witness (self (module_init (demo_task True))) = None"
    by (simp add: module_init_def demo_task_def)
  have h2: "running (module_init (demo_task True)) = []"
    by (simp add: module_init_def running_def)
  have p: "PROGRESS (demo_env True)" by (simp add: demo_env_def)
  show ?thesis
    using verify_without_witness [OF h1 h2, of "demo_env True"] h1 h2 p
    by (simp add: module_init_def demo_task_def)
qed
subsection \<open>The progress bar of a call\<close>

lemma list_update_bar:
  "bar_closes (bs[i := (bs ! i)\<lparr>bar_n := x\<rparr>] ! j) = bar_closes (bs ! j)"
  "bar_total (bs[i := (bs ! i)\<lparr>bar_n := x\<rparr>] ! j) = bar_total (bs ! j)"
proof -
  show "bar_closes (bs[i := (bs ! i)\<lparr>bar_n := x\<rparr>] ! j) = bar_closes (bs ! j)"
  proof (cases "i < length bs")
    case True
    then show ?thesis by (simp add: nth_list_update)
  next
    case False
    then show ?thesis by (simp add: list_update_beyond not_less)
  qed
  show "bar_total (bs[i := (bs ! i)\<lparr>bar_n := x\<rparr>] ! j) = bar_total (bs ! j)"
  proof (cases "i < length bs")
    case True
    then show ?thesis by (simp add: nth_list_update)
  next
    case False
    then show ?thesis by (simp add: list_update_beyond not_less)
  qed
qed

lemma update_progress_bar:
  "bar_closes (bars (update_progress E d v) ! j) = bar_closes (bars v ! j)"
  "bar_total (bars (update_progress E d v) ! j) = bar_total (bars v ! j)"
  by (simp_all add: update_progress_def list_update_bar split: option.splits)

lemma callbacks_bar:
  "bar_closes (bars (callbacks E ds v) ! j) = bar_closes (bars v ! j)"
  "bar_total (bars (callbacks E ds v) ! j) = bar_total (bars v ! j)"
  by (induction ds arbitrary: v) (simp_all add: update_progress_bar)

lemma task_bar:
  "bar_closes (bars (snd (task E op v)) ! j) = bar_closes (bars v ! j)"
  "bar_total (bars (snd (task E op v)) ! j) = bar_total (bars v ! j)"
  by (cases op;
      simp add: compute_task_def verify_task_def Let_def callbacks_bar
        split: sum.splits option.splits prod.splits)+

lemma task_trace_grows: "\<exists>evs. trace (snd (task E op v)) = trace v @ evs"
  by (cases op;
      simp add: compute_task_def verify_task_def Let_def
        split: sum.splits option.splits prod.splits)+

lemma wrapped_task_bar:
  assumes "PROGRESS E" and "progressbar v = Some i" and "i < length (bars v)"
  shows "bar_closes (bars (snd (wrapped_task E op v)) ! i) =
           bar_closes (bars v ! i) + (if fst (task E op v) = None then 1 else 0)"
    and "bar_total (bars (snd (wrapped_task E op v)) ! i) = bar_total (bars v ! i)"
    and "length (bars (snd (wrapped_task E op v))) = length (bars v)"
proof -
  obtain e w' where t: "task E op v = (e, w')" by (cases "task E op v")
  have f: "progressbar w' = Some i" "length (bars w') = length (bars v)"
    "bar_closes (bars w' ! i) = bar_closes (bars v ! i)"
    "bar_total (bars w' ! i) = bar_total (bars v ! i)"
    using task_frame(1,4) [of E op v] task_bar [of E op v i] assms(2) by (simp_all add: t)
  show "bar_closes (bars (snd (wrapped_task E op v)) ! i) =
           bar_closes (bars v ! i) + (if fst (task E op v) = None then 1 else 0)"
    "bar_total (bars (snd (wrapped_task E op v)) ! i) = bar_total (bars v ! i)"
    "length (bars (snd (wrapped_task E op v))) = length (bars v)"
    using assms(1,3) by (cases e; simp add: wrapped_task_def t f close_progressbar_def)+
qed

text \<open>
  Claim C7, as the specification states it, fails: when the task raises, the bar of
  the call is not closed. Here the library call of a blocking \<open>compute\<close> raises, and
  the bar made for the call has no \<open>close\<close>.
\<close>

theorem bar_left_open_on_failure:
  "exec (failing_env True) [Compute] (module_init (demo_task True)) =
     ([Some PrimitiveFailure],
      \<lparr>self = demo_task True, progressbar = Some 0,
       bars = [\<lparr>bar_total = 3, bar_n = 0, bar_closes = 0\<rparr>],
       threads = [], stopped = {}, stderr = [],
       trace = [NewBar 3, CallSloth]\<rparr>)"
  by (simp add: model_defs failing_env_def demo_task_def)

text \<open>
  Claim C7, amended: with \<open>PROGRESS\<close> on and no worker running, a call of
  \<open>compute\<close> or \<open>verify\<close> (\<open>run\<close> is their body; \<open>wait\<close> lets the worker of the
  background mode end) first makes a new bar with total \<open>iterations\<close>, before
  anything else the call does; that bar is closed exactly once when the task succeeds
  and is not closed when the task raises.
\<close>

theorem progress_bar_lifecycle:
  assumes "PROGRESS E" and "running w = []"
  shows "length (bars (snd (wait E None (snd (run E op w))))) = Suc (length (bars w)) \<and>
         bar_total (bars (snd (wait E None (snd (run E op w)))) ! length (bars w)) =
           iterations (self w) \<and>
         bar_closes (bars (snd (wait E None (snd (run E op w)))) ! length (bars w)) =
           (if fst (task E op w) = None then 1 else 0) \<and>
         (\<exists>evs. trace (snd (wait E None (snd (run E op w)))) =
                  trace w @ NewBar (iterations (self w)) # evs)"
proof -
  define v where "v = started E op w"
  have v: "progressbar v = Some (length (bars w))" "length (bars w) < length (bars v)"
    "bar_closes (bars v ! length (bars w)) = 0"
    "bar_total (bars v ! length (bars w)) = iterations (self w)"
    "length (bars v) = Suc (length (bars w))"
    using assms(1) by (simp_all add: v_def started_simps [OF assms(2)])
  have sv: "self v = (self w)\<lparr>thread := thread (self v)\<rparr>"
    by (simp add: v_def started_simps [OF assms(2)])
  have ft: "fst (task E op v) = fst (task E op w)"
    by (rule task_thread_update(1) [OF sv])
  have B: "bars (snd (wait E None (snd (run E op w)))) = bars (snd (wrapped_task E op v))"
    unfolding v_def by (rule complete(3) [OF assms(2)])
  obtain evs where evs: "trace (snd (task E op v)) = trace v @ evs"
    using task_trace_grows [of E op v] ..
  have T: "\<exists>evs. trace (snd (wait E None (snd (run E op w)))) =
                  trace w @ NewBar (iterations (self w)) # evs"
    unfolding complete(2) [OF assms(2)] v_def [symmetric] wrapped_task_trace evs
    using assms(1) by (simp add: v_def started_simps [OF assms(2)])
  show ?thesis
    using wrapped_task_bar [OF assms(1) v(1,2), of op] T
    by (simp add: B v ft)
qed

theorem progress_bar_lifecycle_witness:
  "PROGRESS (demo_env True) \<and> running (module_init (demo_task False)) = [] \<and>
   length (bars (snd (wait (demo_env True) None
     (snd (run (demo_env True) ComputeTask (module_init (demo_task False))))))) = 1 \<and>
   bar_total (bars (snd (wait (demo_env True) None
     (snd (run (demo_env True) ComputeTask (module_init (demo_task False)))))) ! 0) = 3 \<and>
   bar_closes (bars (snd (wait (demo_env True) None
     (snd (run (demo_env True) ComputeTask (module_init (demo_task False)))))) ! 0) = 1 \<and>
   (\<exists>evs. trace (snd (wait (demo_env True) None
       (snd (run (demo_env True) ComputeTask (module_init (demo_task False)))))) =
     NewBar 3 # evs)"
proof -
  have h1: "PROGRESS (demo_env True)" by (simp add: demo_env_def)
  have h2: "running (module_init (demo_task False)) = []"
    by (simp add: module_init_def running_def)
  have t: "fst (task (demo_env True) ComputeTask (module_init (demo_task False))) = None"
    by (simp add: compute_task_def ffi_new_def demo_env_def module_init_def
        demo_task_def Let_def)
  show ?thesis
    using progress_bar_lifecycle [OF h1 h2, of ComputeTask] h1 h2 t
    by (simp add: module_init_def demo_task_def)
qed

end
